theory Spec2Isabelle
  imports Main "HOL-Library.Word" "HOL-Library.Finite_Map" "HOL-Library.Char_ord"
    "HOL-Library.List_Lexorder"
begin

section \<open>Pluto: write-ahead log, table pair and engine\<close>

subsection \<open>Actions\<close>

text \<open>
  \<^verbatim>\<open>type Action int\<close> with the constants \<^verbatim>\<open>ActionPut\<close>, \<^verbatim>\<open>ActionGet\<close>,
  \<^verbatim>\<open>ActionDelete\<close> numbered by \<^verbatim>\<open>iota\<close>. No arithmetic is done on an action, so the
  integer is kept unbounded.
\<close>

type_synonym Action = int

definition ActionPut :: Action where "ActionPut = 0"
definition ActionGet :: Action where "ActionGet = 1"
definition ActionDelete :: Action where "ActionDelete = 2"

definition LogLimit :: int where "LogLimit = 4 * 1024"

definition Action_String :: "Action \<Rightarrow> string" where
  "Action_String a =
     (if a = ActionPut then ''p''
      else if a = ActionGet then ''g''
      else if a = ActionDelete then ''d''
      else ''u'')"

definition transAction :: "char \<Rightarrow> Action" where
  "transAction a =
     (if a = CHR ''p'' then ActionPut
      else if a = CHR ''g'' then ActionGet
      else if a = CHR ''d'' then ActionDelete
      else - 1)"

subsection \<open>Errors, panics and process exit\<close>

datatype error = ErrorKeyNotFound | IOError string

datatype panic = IndexOutOfRange

text \<open>
  A call either panics (a run-time error of Go), ends the process through
  \<^verbatim>\<open>log.Fatal\<close>, or returns.
\<close>

datatype 'a outcome = Panic panic | Fatal error | Ret 'a

subsection \<open>Records and their encoding\<close>

text \<open>
  Go's \<^verbatim>\<open>int\<close> is a 64-bit two's complement integer: a \<open>64 word\<close>, read through
  \<open>sint\<close>. Byte slices are strings.
\<close>

type_synonym go_int = "64 word"

record Record =
  Len :: go_int
  Key :: string
  Val :: string
  Action :: Action

text \<open>The verb \<^verbatim>\<open>%d\<close> of \<^verbatim>\<open>fmt.Sprintf\<close>: decimal digits, with a sign when negative.\<close>

fun dec :: "nat \<Rightarrow> string" where
  "dec n = (if n < 10 then [char_of (48 + n)]
            else dec (n div 10) @ [char_of (48 + n mod 10)])"

declare dec.simps [simp del]

definition fmt_d :: "int \<Rightarrow> string" where
  "fmt_d i = (if i < 0 then CHR ''-'' # dec (nat (- i)) else dec (nat i))"

text \<open>\<^verbatim>\<open>fmt.Sprintf("%d%s%s|%s", r.Len, r.Action, r.Key, r.Val)\<close>\<close>

definition Record_String :: "Record \<Rightarrow> string" where
  "Record_String r =
     fmt_d (sint (Len r)) @ Action_String (Action r) @ Key r @ ''|'' @ Val r"

definition Record_Bytes :: "Record \<Rightarrow> string" where
  "Record_Bytes r = Record_String r"

subsection \<open>Decoding\<close>

text \<open>
  \<^verbatim>\<open>parseRecord\<close> moves a cursor \<^verbatim>\<open>i\<close> over \<^verbatim>\<open>data\<close>; the model passes the unread
  bytes \<^verbatim>\<open>data[i:]\<close>. Reading \<^verbatim>\<open>data[i]\<close> with nothing left is the index panic of Go.
\<close>

definition is_digit :: "char \<Rightarrow> bool" where
  "is_digit c \<longleftrightarrow> (48::nat) \<le> of_char c \<and> of_char c \<le> (57::nat)"

text \<open>
  The digit loop: \<^verbatim>\<open>dataLen = dataLen*10 + int(data[i]-'0')\<close>, wrapping as Go does.
  The counter \<^verbatim>\<open>ll\<close> of the source is never read and is left out.
\<close>

fun scan_digits :: "string \<Rightarrow> go_int \<Rightarrow> panic + (go_int \<times> string)" where
  "scan_digits [] dataLen = Inl IndexOutOfRange"
| "scan_digits (c # cs) dataLen =
     (if is_digit c then scan_digits cs (dataLen * 10 + of_nat (of_char c - 48))
      else Inr (dataLen, c # cs))"

text \<open>The key loop: \<^verbatim>\<open>for data[i] != '|'\<close>, then the separator is skipped.\<close>

fun scan_key :: "string \<Rightarrow> string \<Rightarrow> panic + (string \<times> string)" where
  "scan_key [] key = Inl IndexOutOfRange"
| "scan_key (c # cs) key =
     (if c \<noteq> CHR ''|'' then scan_key cs (key @ [c]) else Inr (key, cs))"

text \<open>The value loop: \<^verbatim>\<open>for j := 0; j < dataLen-len(key)-2; j++\<close>.\<close>

fun read_val :: "nat \<Rightarrow> string \<Rightarrow> string \<Rightarrow> panic + (string \<times> string)" where
  "read_val 0 data val = Inr (val, data)"
| "read_val (Suc n) [] val = Inl IndexOutOfRange"
| "read_val (Suc n) (c # cs) val = read_val n cs (val @ [c])"

definition val_count :: "go_int \<Rightarrow> string \<Rightarrow> nat" where
  "val_count dataLen key = nat (sint (dataLen - of_nat (length key) - 2))"

lemma scan_digits_length:
  "scan_digits data w = Inr (w', rest) \<Longrightarrow> length rest \<le> length data \<and> rest \<noteq> []"
  by (induction data arbitrary: w) (fastforce split: if_splits)+

lemma scan_key_length:
  "scan_key data k = Inr (k', rest) \<Longrightarrow> length rest < length data"
  by (induction data arbitrary: k) (fastforce split: if_splits)+

lemma read_val_length:
  "read_val n data v = Inr (v', rest) \<Longrightarrow> length rest \<le> length data"
  by (induction n data v rule: read_val.induct) auto

function parseLoop :: "string \<Rightarrow> Record list \<Rightarrow> (Record list \<times> error option) outcome" where
  "parseLoop data records =
     (if data = [] then Ret (records, None)
      else case scan_digits data 0 of
        Inl p \<Rightarrow> Panic p
      | Inr (dataLen, d1) \<Rightarrow>
          (case d1 of
             [] \<Rightarrow> Panic IndexOutOfRange
           | a # d2 \<Rightarrow>
               (case scan_key d2 [] of
                  Inl p \<Rightarrow> Panic p
                | Inr (key, d3) \<Rightarrow>
                    (case read_val (val_count dataLen key) d3 [] of
                       Inl p \<Rightarrow> Panic p
                     | Inr (val, d4) \<Rightarrow>
                         parseLoop d4
                           (records @ [\<lparr>Len = dataLen, Key = key, Val = val,
                                        Action = transAction a\<rparr>])))))"
  by pat_completeness auto
termination
proof (relation "measure (\<lambda>(data, records). length data)")
  show "wf (measure (\<lambda>(data, records). length data))" by simp
next
  fix data :: string and records :: "Record list" and x2 x y a d2 x2a xa ya x2b xb yb
  assume "scan_digits data 0 = Inr x2" "(x, y) = x2" "y = a # d2"
    "scan_key d2 [] = Inr x2a" "(xa, ya) = x2a"
    "read_val (val_count x xa) ya [] = Inr x2b" "(xb, yb) = x2b"
  then have "length y \<le> length data" "length ya < length d2" "length yb \<le> length ya"
    using scan_digits_length [of data 0 x y] scan_key_length [of d2 "[]" xa ya]
      read_val_length [of "val_count x xa" ya "[]" xb yb]
    by auto
  with \<open>y = a # d2\<close>
  show "((yb, records @ [\<lparr>Len = x, Key = xa, Val = xb, Action = transAction a\<rparr>]),
         (data, records)) \<in> measure (\<lambda>(data, records). length data)"
    by simp
qed

declare parseLoop.simps [simp del]

definition parseRecord :: "string \<Rightarrow> (Record list \<times> error option) outcome" where
  "parseRecord data = parseLoop data []"

subsection \<open>Files\<close>

text \<open>
  The file system maps a path to the bytes of the file. An open \<^verbatim>\<open>*os.File\<close> is its
  path and its offset. What the operating system answers to each call that can fail is
  an input of the model: \<open>None\<close> is success, \<open>Some (n, e)\<close> a write that stopped with
  error \<open>e\<close> after \<open>n\<close> bytes.
\<close>

type_synonym fs = "string \<rightharpoonup> string"

record os_file =
  path :: string
  offset :: nat

record os_io =
  wal_write :: "(nat \<times> error) option"
  wal_seek :: "error option"
  wal_truncate :: "error option"
  sst_create :: "error option"
  sst_write :: "(nat \<times> error) option"

definition write_at :: "nat \<Rightarrow> string \<Rightarrow> string \<Rightarrow> string" where
  "write_at off b content =
     take off (content @ replicate (off - length content) (char_of (0::nat)))
       @ b @ drop (off + length b) content"

definition file_Write ::
  "(nat \<times> error) option \<Rightarrow> os_file \<Rightarrow> string \<Rightarrow> fs \<Rightarrow> os_file \<times> fs \<times> error option" where
  "file_Write res fh b files =
     (let n = (case res of None \<Rightarrow> length b | Some (n, e) \<Rightarrow> min n (length b));
          old = (case files (path fh) of None \<Rightarrow> [] | Some c \<Rightarrow> c)
      in (fh\<lparr>offset := offset fh + n\<rparr>,
          files(path fh \<mapsto> write_at (offset fh) (take n b) old),
          map_option snd res))"

subsection \<open>The write-ahead log\<close>

text \<open>The mutexes are left out: the model is one thread.\<close>

record WAL =
  Records :: "Record list"
  Dir :: string
  f :: os_file

definition WAL_len :: "WAL \<Rightarrow> int" where
  "WAL_len w = int (length (Records w))"

text \<open>\<^verbatim>\<open>&w.Records[len(w.Records)-1]\<close>: index \<open>-1\<close> on an empty log panics.\<close>

definition WAL_last :: "WAL \<Rightarrow> Record outcome" where
  "WAL_last w = (if Records w = [] then Panic IndexOutOfRange else Ret (last (Records w)))"

definition WAL_flush :: "os_io \<Rightarrow> WAL \<Rightarrow> fs \<Rightarrow> (WAL \<times> fs \<times> error option) outcome" where
  "WAL_flush io w files =
     (case WAL_last w of
        Panic p \<Rightarrow> Panic p
      | Fatal e \<Rightarrow> Fatal e
      | Ret r \<Rightarrow>
          (case file_Write (wal_write io) (f w) (Record_Bytes r) files of
             (fh, files1, err) \<Rightarrow> Ret (w\<lparr>f := fh\<rparr>, files1, err)))"

definition WAL_Append ::
  "os_io \<Rightarrow> Record \<Rightarrow> WAL \<Rightarrow> fs \<Rightarrow> (WAL \<times> fs \<times> error option) outcome" where
  "WAL_Append io record w files = WAL_flush io (w\<lparr>Records := Records w @ [record]\<rparr>) files"

text \<open>
  \<^verbatim>\<open>w.f.Seek(0, 0); w.f.Truncate(0); return nil\<close>: the results of both calls are
  dropped, so the returned error is always nil.
\<close>

definition WAL_compact :: "os_io \<Rightarrow> WAL \<Rightarrow> fs \<Rightarrow> WAL \<times> fs \<times> error option" where
  "WAL_compact io w files =
     (let w1 = w\<lparr>Records := []\<rparr>;
          fh = (case wal_seek io of None \<Rightarrow> (f w1)\<lparr>offset := 0\<rparr> | Some e \<Rightarrow> f w1);
          files1 = (case wal_truncate io of None \<Rightarrow> files(path fh \<mapsto> []) | Some e \<Rightarrow> files)
      in (w1\<lparr>f := fh\<rparr>, files1, None))"

subsection \<open>The table pair\<close>

record Table =
  Dir :: string
  MemTable :: "(string, string) fmap"
  Immutable :: "(string, string) fmap"
  level :: go_int

definition Table_Put :: "Table \<Rightarrow> string \<Rightarrow> string \<Rightarrow> Table \<times> error option" where
  "Table_Put t key val = (t\<lparr>MemTable := fmupd key val (MemTable t)\<rparr>, None)"

definition Table_Get :: "Table \<Rightarrow> string \<Rightarrow> error + string" where
  "Table_Get t key =
     (case fmlookup (MemTable t) key of
        None \<Rightarrow>
          (case fmlookup (Immutable t) key of
             None \<Rightarrow> Inl ErrorKeyNotFound
           | Some val \<Rightarrow> Inr val)
      | Some val \<Rightarrow> Inr val)"

definition Table_Delete :: "Table \<Rightarrow> string \<Rightarrow> Table \<times> error option" where
  "Table_Delete t key = (t\<lparr>MemTable := fmdrop key (MemTable t)\<rparr>, None)"

text \<open>
  The entries of the map after \<^verbatim>\<open>sort.Sort(KVs(data))\<close>: keys are unique, so the slice
  sorted by key is the same whatever order \<^verbatim>\<open>range\<close> produced.
\<close>

definition sorted_KVs :: "(string, string) fmap \<Rightarrow> (string \<times> string) list" where
  "sorted_KVs m = map (\<lambda>k. (k, the (fmlookup m k))) (sorted_list_of_fset (fmdom m))"

text \<open>
  \<^verbatim>\<open>json.Marshal\<close> belongs to the standard library; the encoder is the parameter
  \<open>marshal\<close>.
\<close>

definition Table_writeSSTable ::
  "((string, string) fmap \<Rightarrow> string) \<Rightarrow> os_io \<Rightarrow> Table \<Rightarrow> fs \<Rightarrow> Table \<times> fs \<times> error option" where
  "Table_writeSSTable marshal io t files =
     (let data = sorted_KVs (Immutable t);
          name = Table.Dir t @ ''/'' @ fmt_d (sint (level t)) @ ''.sst''
      in case sst_create io of
           Some e \<Rightarrow> (t, files, Some e)
         | None \<Rightarrow>
             (let files1 = files(name \<mapsto> []);
                  fh = \<lparr>path = name, offset = 0\<rparr>;
                  m = fold (\<lambda>kv m. fmupd (fst kv) (snd kv) m) data fmempty;
                  mData = marshal m
              in case file_Write (sst_write io) fh mData files1 of
                   (_, files2, Some e) \<Rightarrow> (t, files2, Some e)
                 | (_, files2, None) \<Rightarrow> (t\<lparr>level := level t + 1\<rparr>, files2, None)))"

subsection \<open>The engine\<close>

record DB =
  WAL :: WAL
  Table :: Table

definition DB_writeSSTable ::
  "((string, string) fmap \<Rightarrow> string) \<Rightarrow> os_io \<Rightarrow> DB \<Rightarrow> fs \<Rightarrow> DB \<times> fs \<times> error option" where
  "DB_writeSSTable marshal io db files =
     (case Table_writeSSTable marshal io (Table db) files of
        (t, files1, err) \<Rightarrow> (db\<lparr>Table := t\<rparr>, files1, err))"

definition DB_compact ::
  "((string, string) fmap \<Rightarrow> string) \<Rightarrow> os_io \<Rightarrow> DB \<Rightarrow> fs \<Rightarrow> DB \<times> fs \<times> error option" where
  "DB_compact marshal io db files =
     (case WAL_compact io (WAL db) files of
        (w, files1, Some e) \<Rightarrow> (db\<lparr>WAL := w\<rparr>, files1, Some e)
      | (w, files1, None) \<Rightarrow>
          (let db1 = db\<lparr>WAL := w\<rparr> in
           case (if 0 < fcard (fmdom (Immutable (Table db1)))
                 then DB_writeSSTable marshal io db1 files1
                 else (db1, files1, None)) of
             (db2, files2, Some e) \<Rightarrow> (db2, files2, Some e)
           | (db2, files2, None) \<Rightarrow>
               (db2\<lparr>Table := (Table db2)\<lparr>Immutable := MemTable (Table db2),
                                          MemTable := fmempty\<rparr>\<rparr>,
                files2, None)))"

definition DB_sync :: "DB \<Rightarrow> (DB \<times> error option) outcome" where
  "DB_sync db =
     (case WAL_last (WAL db) of
        Panic p \<Rightarrow> Panic p
      | Fatal e \<Rightarrow> Fatal e
      | Ret record \<Rightarrow>
          (if Action record = ActionPut then
             (case Table_Put (Table db) (Key record) (Val record) of
                (t, err) \<Rightarrow> Ret (db\<lparr>Table := t\<rparr>, err))
           else if Action record = ActionDelete then
             (case Table_Delete (Table db) (Key record) of
                (t, err) \<Rightarrow> Ret (db\<lparr>Table := t\<rparr>, err))
           else Ret (db, None)))"

text \<open>
  \<^verbatim>\<open>DB.append\<close>: the compaction check, whose error ends the process through
  \<^verbatim>\<open>log.Fatal\<close>; the append to the log, whose error is returned; the sync step.
\<close>

definition DB_append ::
  "((string, string) fmap \<Rightarrow> string) \<Rightarrow> os_io \<Rightarrow> DB \<Rightarrow> fs \<Rightarrow> string \<Rightarrow> string \<Rightarrow> Action
     \<Rightarrow> (DB \<times> fs \<times> error option) outcome" where
  "DB_append marshal io db files key val action =
     (case (if LogLimit < WAL_len (WAL db)
            then (case DB_compact marshal io db files of
                    (db1, files1, Some e) \<Rightarrow> Fatal e
                  | (db1, files1, None) \<Rightarrow> Ret (db1, files1))
            else Ret (db, files)) of
        Panic p \<Rightarrow> Panic p
      | Fatal e \<Rightarrow> Fatal e
      | Ret (db1, files1) \<Rightarrow>
          (case WAL_Append io
                  \<lparr>Len = of_nat (length key) + of_nat (length val) + 1 + 1,
                   Key = key, Val = val, Action = action\<rparr>
                  (WAL db1) files1 of
             Panic p \<Rightarrow> Panic p
           | Fatal e \<Rightarrow> Fatal e
           | Ret (w, files2, Some e) \<Rightarrow> Ret (db1\<lparr>WAL := w\<rparr>, files2, Some e)
           | Ret (w, files2, None) \<Rightarrow>
               (case DB_sync (db1\<lparr>WAL := w\<rparr>) of
                  Panic p \<Rightarrow> Panic p
                | Fatal e \<Rightarrow> Fatal e
                | Ret (db2, err) \<Rightarrow> Ret (db2, files2, err))))"

definition DB_Put ::
  "((string, string) fmap \<Rightarrow> string) \<Rightarrow> os_io \<Rightarrow> DB \<Rightarrow> fs \<Rightarrow> string \<Rightarrow> string
     \<Rightarrow> (DB \<times> fs \<times> error option) outcome" where
  "DB_Put marshal io db files key val = DB_append marshal io db files key val ActionPut"

text \<open>\<^verbatim>\<open>db.append(key, nil, ActionDelete)\<close>: the nil value has length 0.\<close>

definition DB_Delete ::
  "((string, string) fmap \<Rightarrow> string) \<Rightarrow> os_io \<Rightarrow> DB \<Rightarrow> fs \<Rightarrow> string
     \<Rightarrow> (DB \<times> fs \<times> error option) outcome" where
  "DB_Delete marshal io db files key = DB_append marshal io db files key [] ActionDelete"

definition DB_search :: "DB \<Rightarrow> string \<Rightarrow> error + string" where
  "DB_search db key =
     (case Table_Get (Table db) key of Inl err \<Rightarrow> Inl err | Inr val \<Rightarrow> Inr val)"

definition DB_Get :: "DB \<Rightarrow> string \<Rightarrow> error + string" where
  "DB_Get db key = DB_search db key"

subsection \<open>Opening the engine\<close>

record open_io =
  open_file :: "error option"
  read_all :: "error option"
  seek_end :: "error option"

definition newWAL :: "open_io \<Rightarrow> string \<Rightarrow> fs \<Rightarrow> (WAL \<times> fs) outcome" where
  "newWAL oio dir files =
     (let name = dir @ ''/wal.txt'' in
      case open_file oio of
        Some e \<Rightarrow> Fatal e
      | None \<Rightarrow>
          (let data = (case files name of None \<Rightarrow> [] | Some c \<Rightarrow> c);
               files1 = files(name \<mapsto> data)
           in case read_all oio of
                Some e \<Rightarrow> Fatal e
              | None \<Rightarrow>
                  (case parseRecord data of
                     Panic p \<Rightarrow> Panic p
                   | Fatal e \<Rightarrow> Fatal e
                   | Ret (records, Some e) \<Rightarrow> Fatal e
                   | Ret (records, None) \<Rightarrow>
                       (case seek_end oio of
                          Some e \<Rightarrow> Fatal e
                        | None \<Rightarrow>
                            Ret (\<lparr>Records = records, Dir = dir,
                                  f = \<lparr>path = name, offset = length data\<rparr>\<rparr>,
                                 files1)))))"

text \<open>
  \<^verbatim>\<open>newDefaultDB\<close> builds the table only (the log pointer is nil until \<^verbatim>\<open>Open\<close> sets
  it); the nil \<^verbatim>\<open>Immutable\<close> map reads as the empty map. The one option of the
  repository, \<^verbatim>\<open>OptionDir\<close>, sets the directory of the table.
\<close>

definition newDefaultDB :: Table where
  "newDefaultDB = \<lparr>Dir = ''.'', MemTable = fmempty, Immutable = fmempty, level = 0\<rparr>"

datatype Option = OptionDir string

fun apply_Option :: "Option \<Rightarrow> Table \<Rightarrow> Table" where
  "apply_Option (OptionDir dir) t = t\<lparr>Dir := dir\<rparr>"

definition Open :: "open_io \<Rightarrow> Option list \<Rightarrow> fs \<Rightarrow> (DB \<times> fs) outcome" where
  "Open oio options files =
     (let t = fold apply_Option options newDefaultDB in
      case newWAL oio (Table.Dir t) files of
        Panic p \<Rightarrow> Panic p
      | Fatal e \<Rightarrow> Fatal e
      | Ret (w, files1) \<Rightarrow> Ret (\<lparr>WAL = w, Table = t\<rparr>, files1))"

subsection \<open>Sequences of calls\<close>

datatype call = CallPut string string | CallDelete string

fun DB_call ::
  "((string, string) fmap \<Rightarrow> string) \<Rightarrow> os_io \<Rightarrow> DB \<Rightarrow> fs \<Rightarrow> call
     \<Rightarrow> (DB \<times> fs \<times> error option) outcome" where
  "DB_call marshal io db files (CallPut key val) = DB_Put marshal io db files key val"
| "DB_call marshal io db files (CallDelete key) = DB_Delete marshal io db files key"

text \<open>
  A caller that goes on after a returned error, as \<^verbatim>\<open>main\<close> does; a panic or
  \<^verbatim>\<open>log.Fatal\<close> ends the run.
\<close>

fun run ::
  "((string, string) fmap \<Rightarrow> string) \<Rightarrow> (call \<times> os_io) list \<Rightarrow> DB \<Rightarrow> fs \<Rightarrow> (DB \<times> fs) outcome" where
  "run marshal [] db files = Ret (db, files)"
| "run marshal ((c, io) # cs) db files =
     (case DB_call marshal io db files c of
        Panic p \<Rightarrow> Panic p
      | Fatal e \<Rightarrow> Fatal e
      | Ret (db1, files1, err) \<Rightarrow> run marshal cs db1 files1)"

subsection \<open>The compaction check\<close>

text \<open>
  \<open>checked marshal io db files db1 files1\<close>: the compaction check at the head of
  \<^verbatim>\<open>DB.append\<close> passes and leaves the engine \<open>db1\<close> and the files \<open>files1\<close>, either
  untouched (the log holds at most \<open>LogLimit\<close> records) or as a successful compaction
  left them.
\<close>

definition checked ::
  "((string, string) fmap \<Rightarrow> string) \<Rightarrow> os_io \<Rightarrow> DB \<Rightarrow> fs \<Rightarrow> DB \<Rightarrow> fs \<Rightarrow> bool" where
  "checked marshal io db files db1 files1 \<longleftrightarrow>
     (if LogLimit < WAL_len (WAL db) then DB_compact marshal io db files = (db1, files1, None)
      else db1 = db \<and> files1 = files)"

subsection \<open>Example states\<close>

text \<open>Answers of the operating system: all calls succeed, or one of them fails.\<close>

definition io_ok :: os_io where
  "io_ok = \<lparr>wal_write = None, wal_seek = None, wal_truncate = None,
            sst_create = None, sst_write = None\<rparr>"

definition io_wal_fail :: os_io where
  "io_wal_fail = io_ok\<lparr>wal_write := Some (0, IOError ''no space left on device'')\<rparr>"

definition io_sst_fail :: os_io where
  "io_sst_fail = io_ok\<lparr>sst_create := Some (IOError ''permission denied'')\<rparr>"

definition oio_ok :: open_io where
  "oio_ok = \<lparr>open_file = None, read_all = None, seek_end = None\<rparr>"

text \<open>An encoder to stand for \<^verbatim>\<open>json.Marshal\<close> in the examples.\<close>

definition ex_marshal :: "(string, string) fmap \<Rightarrow> string" where
  "ex_marshal m = concat (map (\<lambda>kv. fst kv @ '':'' @ snd kv @ '','') (sorted_KVs m))"

definition ex_record :: Record where
  "ex_record = \<lparr>Len = 4, Key = ''a'', Val = ''b'', Action = ActionPut\<rparr>"

text \<open>
  The engine in the default directory after \<open>k\<close> calls \<^verbatim>\<open>Put("a", "b")\<close> on an empty
  log, \<open>k\<close> at most 4097, and its files.
\<close>

definition filled_db :: "nat \<Rightarrow> DB" where
  "filled_db k =
     \<lparr>WAL = \<lparr>Records = replicate k ex_record, Dir = ''.'',
             f = \<lparr>path = ''./wal.txt'', offset = 5 * k\<rparr>\<rparr>,
      Table = \<lparr>Dir = ''.'',
               MemTable = (if k = 0 then fmempty else fmupd ''a'' ''b'' fmempty),
               Immutable = fmempty, level = 0\<rparr>\<rparr>"

definition filled_files :: "nat \<Rightarrow> fs" where
  "filled_files k = [''./wal.txt'' \<mapsto> concat (replicate k ''4pa|b'')]"

text \<open>A log of 4097 records, over an empty and over a non-empty immutable mapping.\<close>

definition full_WAL :: WAL where
  "full_WAL = \<lparr>Records = replicate 4097 ex_record, Dir = ''.'',
               f = \<lparr>path = ''./wal.txt'', offset = 20485\<rparr>\<rparr>"

definition full_files :: fs where
  "full_files = [''./wal.txt'' \<mapsto> concat (replicate 4097 ''4pa|b'')]"

definition full_db :: DB where
  "full_db = \<lparr>WAL = full_WAL,
              Table = \<lparr>Dir = ''.'', MemTable = fmupd ''a'' ''b'' fmempty,
                       Immutable = fmempty, level = 0\<rparr>\<rparr>"

definition full_db2 :: DB where
  "full_db2 = \<lparr>WAL = full_WAL,
               Table = \<lparr>Dir = ''.'', MemTable = fmupd ''c'' ''d'' fmempty,
                        Immutable = fmupd ''a'' ''b'' fmempty, level = 0\<rparr>\<rparr>"

text \<open>A log of one record, and a table pair that holds a key in both mappings.\<close>

definition small_db :: DB where
  "small_db = \<lparr>WAL = \<lparr>Records = [ex_record], Dir = ''.'',
                       f = \<lparr>path = ''./wal.txt'', offset = 5\<rparr>\<rparr>,
               Table = \<lparr>Dir = ''.'', MemTable = fmupd ''a'' ''b'' fmempty,
                        Immutable = fmempty, level = 0\<rparr>\<rparr>"

definition small_files :: fs where
  "small_files = [''./wal.txt'' \<mapsto> ''4pa|b'']"

definition ex_db :: DB where
  "ex_db = \<lparr>WAL = \<lparr>Records = [], Dir = ''.'', f = \<lparr>path = ''./wal.txt'', offset = 0\<rparr>\<rparr>,
            Table = \<lparr>Dir = ''.'', MemTable = fmupd ''k1'' ''new'' fmempty,
                     Immutable = fmupd ''k1'' ''old'' (fmupd ''k2'' ''v2'' fmempty),
                     level = 0\<rparr>\<rparr>"

text \<open>The engine after 4097 calls \<^verbatim>\<open>Put("a", "b")\<close> and one \<^verbatim>\<open>Put("k", "v")\<close>.\<close>

definition after_db :: DB where
  "after_db =
     \<lparr>WAL = \<lparr>Records = [\<lparr>Len = 4, Key = ''k'', Val = ''v'', Action = ActionPut\<rparr>],
             Dir = ''.'', f = \<lparr>path = ''./wal.txt'', offset = 5\<rparr>\<rparr>,
      Table = \<lparr>Dir = ''.'', MemTable = fmupd ''k'' ''v'' fmempty,
               Immutable = fmupd ''a'' ''b'' fmempty, level = 0\<rparr>\<rparr>"

section \<open>The record codec\<close>

subsection \<open>Decimal digits\<close>

lemma is_digit_char_of: "d < 10 \<Longrightarrow> is_digit (char_of (48 + d :: nat))"
  by (simp add: is_digit_def)

lemma dec_digits: "c \<in> set (dec n) \<Longrightarrow> is_digit c"
proof (induction n rule: dec.induct)
  case (1 n)
  show ?case
  proof (cases "n < 10")
    case True
    with "1.prems" show ?thesis
      by (subst (asm) dec.simps) (simp add: is_digit_char_of)
  next
    case False
    with "1.prems" have "c \<in> set (dec (n div 10)) \<or> c = char_of (48 + n mod 10)"
      by (subst (asm) dec.simps) auto
    with False "1.IH" show ?thesis
      using is_digit_char_of [of "n mod 10"] by auto
  qed
qed

definition digit_step :: "go_int \<Rightarrow> char \<Rightarrow> go_int" where
  "digit_step w c = w * 10 + of_nat (of_char c - 48)"

lemma scan_digits_append:
  "\<forall>c\<in>set xs. is_digit c \<Longrightarrow>
   scan_digits (xs @ ys) w = scan_digits ys (foldl digit_step w xs)"
  by (induction xs arbitrary: w) (simp_all add: digit_step_def)

lemma foldl_dec: "foldl digit_step w (dec n) = w * 10 ^ length (dec n) + of_nat n"
proof (induction n arbitrary: w rule: dec.induct)
  case (1 n)
  show ?case
  proof (cases "n < 10")
    case True
    then show ?thesis
      by (subst (1 2) dec.simps) (simp add: digit_step_def)
  next
    case False
    have n: "(of_nat n :: go_int) = of_nat (n div 10) * 10 + of_nat (n mod 10)"
      by (metis div_mult_mod_eq of_nat_add of_nat_mult of_nat_numeral)
    have m: "n mod 10 < 10" by simp
    have "foldl digit_step w (dec n)
        = digit_step (foldl digit_step w (dec (n div 10))) (char_of (48 + n mod 10))"
      using False by (subst dec.simps) simp
    also have "\<dots> = foldl digit_step w (dec (n div 10)) * 10 + of_nat (n mod 10)"
      using m by (simp add: digit_step_def)
    also have "\<dots> = (w * 10 ^ length (dec (n div 10)) + of_nat (n div 10)) * 10
                      + of_nat (n mod 10)"
      by (simp only: "1.IH" [OF False, of w])
    also have "\<dots> = w * 10 ^ Suc (length (dec (n div 10))) + of_nat n"
      unfolding n by (simp add: algebra_simps)
    also have "Suc (length (dec (n div 10))) = length (dec n)"
      using False by (subst (2) dec.simps) simp
    finally show ?thesis .
  qed
qed

lemma scan_digits_dec:
  "\<not> is_digit c \<Longrightarrow> scan_digits (dec n @ c # cs) 0 = Inr (of_nat n, c # cs)"
  by (simp add: scan_digits_append dec_digits foldl_dec)

subsection \<open>Key, value and action tag\<close>

lemma scan_key_append:
  "CHR ''|'' \<notin> set k \<Longrightarrow> scan_key (k @ CHR ''|'' # rest) acc = Inr (acc @ k, rest)"
  by (induction k arbitrary: acc) auto

lemma read_val_append: "read_val (length v) (v @ rest) acc = Inr (acc @ v, rest)"
  by (induction v arbitrary: acc) simp_all

lemma Action_String_tag:
  "a \<in> {ActionPut, ActionGet, ActionDelete} \<Longrightarrow>
   \<exists>c. Action_String a = [c] \<and> \<not> is_digit c \<and> transAction c = a"
  by (auto simp: Action_String_def transAction_def ActionPut_def ActionGet_def
      ActionDelete_def is_digit_def)

lemma Len_consistent:
  assumes "sint (Len r) = int (length (Key r)) + int (length (Val r)) + 2"
  shows "Len r = of_nat (length (Key r) + length (Val r) + 2)"
    and "val_count (Len r) (Key r) = length (Val r)"
    and "fmt_d (sint (Len r)) = dec (length (Key r) + length (Val r) + 2)"
proof -
  have "Len r = word_of_int (sint (Len r))" by simp
  also have "\<dots> = of_nat (length (Key r) + length (Val r) + 2)"
    unfolding assms by simp
  finally show L: "Len r = of_nat (length (Key r) + length (Val r) + 2)" .
  have "sint (Len r) < 2 ^ 63"
    using sint_lt [of "Len r"] by simp
  with assms have b: "int (length (Val r)) < 2 ^ 63" by linarith
  have "Len r - of_nat (length (Key r)) - 2 = (of_nat (length (Val r)) :: go_int)"
    unfolding L by simp
  moreover have "sint (of_nat (length (Val r)) :: go_int) = int (length (Val r))"
    using b by (simp add: signed_of_nat signed_take_bit_int_eq_self)
  ultimately show "val_count (Len r) (Key r) = length (Val r)"
    by (simp add: val_count_def)
  show "fmt_d (sint (Len r)) = dec (length (Key r) + length (Val r) + 2)"
    unfolding assms fmt_d_def by (simp add: nat_add_distrib)
qed

subsection \<open>Round trip\<close>

text \<open>
  Claim C1. A record whose key has no separator byte \<open>|\<close>, whose \<open>Len\<close> is
  \<open>len(key) + len(value) + 2\<close> and whose action is one of the three declared constants
  is decoded from its own encoding as exactly that one record, with a nil error. The
  value is read by count and may contain the separator.
\<close>

theorem parseRecord_roundtrip:
  assumes "CHR ''|'' \<notin> set (Key r)"
    and "sint (Len r) = int (length (Key r)) + int (length (Val r)) + 2"
    and "Action r \<in> {ActionPut, ActionGet, ActionDelete}"
  shows "parseRecord (Record_Bytes r) = Ret ([r], None)"
proof -
  obtain c where c: "Action_String (Action r) = [c]" "\<not> is_digit c" "transAction c = Action r"
    using Action_String_tag [OF assms(3)] by blast
  let ?n = "length (Key r) + length (Val r) + 2"
  let ?rec = "\<lparr>Len = of_nat ?n, Key = Key r, Val = Val r, Action = Action r\<rparr>"
  have bytes: "Record_Bytes r = dec ?n @ c # (Key r @ CHR ''|'' # Val r)"
    by (simp add: Record_Bytes_def Record_String_def Len_consistent(3) [OF assms(2)] c(1))
  have ne: "dec ?n @ c # (Key r @ CHR ''|'' # Val r) \<noteq> []" by simp
  have vc: "val_count (word_of_nat ?n) (Key r) = length (Val r)"
    using Len_consistent(1,2) [OF assms(2)] by simp
  have rv: "read_val (length (Val r)) (Val r) [] = Inr (Val r, [])"
    using read_val_append [of "Val r" "[]" "[]"] by simp
  have "parseLoop (dec ?n @ c # (Key r @ CHR ''|'' # Val r)) [] = parseLoop [] [?rec]"
    by (subst parseLoop.simps)
      (simp only: ne if_False scan_digits_dec [OF c(2)] sum.case prod.case list.case
        scan_key_append [OF assms(1)] vc rv append_Nil c(3))
  also have "\<dots> = Ret ([?rec], None)"
    by (subst parseLoop.simps) simp
  also have "?rec = r"
    using Len_consistent(1) [OF assms(2)] by simp
  finally show ?thesis by (simp add: parseRecord_def bytes)
qed

theorem parseRecord_roundtrip_witness:
  "CHR ''|'' \<notin> set ''hello'' \<and>
   sint (12 :: go_int) = int (length ''hello'') + int (length ''wor|d'') + 2 \<and>
   ActionPut \<in> {ActionPut, ActionGet, ActionDelete} \<and>
   parseRecord (Record_Bytes \<lparr>Len = 12, Key = ''hello'', Val = ''wor|d'', Action = ActionPut\<rparr>)
     = Ret ([\<lparr>Len = 12, Key = ''hello'', Val = ''wor|d'', Action = ActionPut\<rparr>], None)"
  using parseRecord_roundtrip
    [of "\<lparr>Len = 12, Key = ''hello'', Val = ''wor|d'', Action = ActionPut\<rparr>"]
  by simp

text \<open>
  An action outside the three constants is written as the tag \<open>u\<close>, which is read back
  as \<open>-1\<close>; the engine itself only builds records with \<^verbatim>\<open>ActionPut\<close> and
  \<^verbatim>\<open>ActionDelete\<close>.
\<close>

lemma parseRecord_unknown_action:
  "parseRecord (Record_Bytes \<lparr>Len = 4, Key = ''a'', Val = ''b'', Action = 7\<rparr>)
     = Ret ([\<lparr>Len = 4, Key = ''a'', Val = ''b'', Action = - 1\<rparr>], None)"
  by code_simp

subsection \<open>Malformed input\<close>

text \<open>Whatever the bytes, the error returned by the decoder is nil.\<close>

lemma parseLoop_never_error:
  "parseLoop data records = Ret (rs, err) \<Longrightarrow> err = None"
proof (induction data records rule: parseLoop.induct)
  case (1 data records)
  show ?case
  proof (cases "data = []")
    case True
    with "1.prems" show ?thesis by (subst (asm) parseLoop.simps) simp
  next
    case False
    with "1.prems" "1.IH" show ?thesis
      by (subst (asm) parseLoop.simps)
        (auto split: sum.splits prod.splits list.splits)
  qed
qed

text \<open>
  Claim C2 says that malformed input is a decode error. The decoder returns no error on
  any of the four kinds: an action tag outside \<open>p\<close>, \<open>g\<close>, \<open>d\<close> is decoded as a record
  with action \<open>-1\<close>; a missing length is decoded as \<open>Len = 0\<close>; a buffer that ends
  inside the value, or that has no separator, runs the cursor off the buffer, which is
  the index panic and not an error value.
\<close>

theorem parseRecord_malformed:
  "parseRecord ''4xa|b'' = Ret ([\<lparr>Len = 4, Key = ''a'', Val = ''b'', Action = - 1\<rparr>], None) \<and>
   parseRecord ''pa|'' = Ret ([\<lparr>Len = 0, Key = ''a'', Val = [], Action = ActionPut\<rparr>], None) \<and>
   parseRecord ''9pa|b'' = Panic IndexOutOfRange \<and>
   parseRecord ''4pab'' = Panic IndexOutOfRange"
  by code_simp

section \<open>The table pair\<close>

text \<open>
  Claim C6. \<^verbatim>\<open>Get\<close> returns the value of the active mapping when the key is there;
  otherwise the value of the immutable mapping when the key is there; otherwise the
  error \<^verbatim>\<open>ErrorKeyNotFound\<close>. The engine's \<^verbatim>\<open>Get\<close> returns what the table's does.
\<close>

theorem Get_lookup_order:
  "(fmlookup (MemTable (Table db)) key = Some v \<longrightarrow>
      Table_Get (Table db) key = Inr v \<and> DB_Get db key = Inr v) \<and>
   (fmlookup (MemTable (Table db)) key = None \<and>
    fmlookup (Immutable (Table db)) key = Some v \<longrightarrow>
      Table_Get (Table db) key = Inr v \<and> DB_Get db key = Inr v) \<and>
   (fmlookup (MemTable (Table db)) key = None \<and>
    fmlookup (Immutable (Table db)) key = None \<longrightarrow>
      Table_Get (Table db) key = Inl ErrorKeyNotFound \<and>
      DB_Get db key = Inl ErrorKeyNotFound)"
  by (simp add: Table_Get_def DB_Get_def DB_search_def)

theorem Get_lookup_order_witness:
  "fmlookup (MemTable (Table ex_db)) ''k1'' = Some ''new'' \<and>
   DB_Get ex_db ''k1'' = Inr ''new'' \<and>
   fmlookup (MemTable (Table ex_db)) ''k2'' = None \<and>
   fmlookup (Immutable (Table ex_db)) ''k2'' = Some ''v2'' \<and>
   DB_Get ex_db ''k2'' = Inr ''v2'' \<and>
   fmlookup (MemTable (Table ex_db)) ''k3'' = None \<and>
   fmlookup (Immutable (Table ex_db)) ''k3'' = None \<and>
   DB_Get ex_db ''k3'' = Inl ErrorKeyNotFound"
  using Get_lookup_order [of ex_db "''k1''" "''new''"]
    Get_lookup_order [of ex_db "''k2''" "''v2''"]
    Get_lookup_order [of ex_db "''k3''" "''v2''"]
  by (simp add: ex_db_def)

text \<open>
  Claim C7. \<^verbatim>\<open>Delete\<close> on the table pair drops the key from the active mapping and
  leaves the immutable mapping as it is, so a key that the immutable mapping holds with
  value \<open>v\<close> is still read as \<open>v\<close> after the delete.
\<close>

theorem Table_Delete_active_only:
  "Table_Delete t key = (t\<lparr>MemTable := fmdrop key (MemTable t)\<rparr>, None) \<and>
   Immutable (fst (Table_Delete t key)) = Immutable t \<and>
   (fmlookup (Immutable t) key = Some v \<longrightarrow>
      Table_Get (fst (Table_Delete t key)) key = Inr v)"
  by (simp add: Table_Delete_def Table_Get_def)

theorem Table_Delete_active_only_witness:
  "fmlookup (Immutable (Table ex_db)) ''k1'' = Some ''old'' \<and>
   Table_Get (Table ex_db) ''k1'' = Inr ''new'' \<and>
   Table_Get (fst (Table_Delete (Table ex_db) ''k1'')) ''k1'' = Inr ''old''"
  using Table_Delete_active_only [of "Table ex_db" "''k1''" "''old''"]
  by (simp add: ex_db_def Table_Get_def)

section \<open>Compaction\<close>

subsection \<open>Writing the sorted table\<close>

lemma fold_fmupd_lookup:
  "fmlookup (fold (\<lambda>kv m. fmupd (fst kv) (snd kv) m) xs m0) k
     = (case map_of (rev xs) k of None \<Rightarrow> fmlookup m0 k | Some v \<Rightarrow> Some v)"
  by (induction xs arbitrary: m0) (auto split: option.splits)

lemma map_of_rev_graph:
  "map_of (rev (map (\<lambda>k. (k, g k)) ks)) x = (if x \<in> set ks then Some (g x) else None)"
  by (induction ks) (auto simp: map_add_def split: option.splits)

lemma map_of_sorted_KVs: "map_of (rev (sorted_KVs m)) k = fmlookup m k"
  unfolding sorted_KVs_def map_of_rev_graph
  by (cases "fmlookup m k") (auto simp: fmlookup_dom_iff)

text \<open>The map rebuilt from the sorted slice is the immutable mapping again.\<close>

lemma fold_sorted_KVs:
  "fold (\<lambda>kv m. fmupd (fst kv) (snd kv) m) (sorted_KVs m) fmempty = m"
  by (rule fmap_ext) (simp add: fold_fmupd_lookup map_of_sorted_KVs split: option.splits)

lemma len_map_pos: "0 < fcard (fmdom m) \<longleftrightarrow> m \<noteq> fmempty"
proof -
  have "fmdom m = {||} \<longleftrightarrow> m = fmempty"
    by (metis fmdom_empty fmrestrict_fset_dom fmrestrict_fset_null)
  moreover have "0 < fcard (fmdom m) \<longleftrightarrow> fmdom m \<noteq> {||}"
    using fcard_0_eq [of "fmdom m"] by (metis gr0I less_numeral_extra(3))
  ultimately show ?thesis by simp
qed

lemma fmupd_not_empty: "fmupd k v m \<noteq> fmempty"
  by (metis fmempty_lookup fmupd_lookup option.distinct(1))

lemma write_at_start: "write_at 0 b [] = b"
  by (simp add: write_at_def)

lemma write_at_end: "write_at (length c) b c = c @ b"
  by (simp add: write_at_def)

lemma fmt_d_zero: "fmt_d 0 = ''0''"
  by code_simp

lemma Table_writeSSTable_ok:
  "sst_create io = None \<Longrightarrow> sst_write io = None \<Longrightarrow>
   Table_writeSSTable marshal io t files =
     (t\<lparr>level := level t + 1\<rparr>,
      files(Table.Dir t @ ''/'' @ fmt_d (sint (level t)) @ ''.sst'' \<mapsto> marshal (Immutable t)),
      None)"
  by (simp add: Table_writeSSTable_def Let_def file_Write_def fold_sorted_KVs write_at_start)

lemma Table_writeSSTable_fail:
  "sst_create io = Some e \<or> sst_create io = None \<and> sst_write io = Some (n, e) \<Longrightarrow>
   \<exists>files'. Table_writeSSTable marshal io t files = (t, files', Some e)"
  by (auto simp: Table_writeSSTable_def Let_def file_Write_def)

subsection \<open>The steps of compaction\<close>

lemma WAL_compact_eq:
  "\<exists>w' files'. WAL_compact io w files = (w', files', None)
     \<and> Records w' = [] \<and> WAL.Dir w' = WAL.Dir w \<and> path (f w') = path (f w)
     \<and> (\<forall>p. p \<noteq> path (f w) \<longrightarrow> files' p = files p)"
  by (simp add: WAL_compact_def Let_def split: option.splits)

text \<open>
  Claim C4. When the calls to the operating system succeed, \<^verbatim>\<open>compact\<close> leaves: the
  log with no record and its file empty, at offset 0; if the immutable mapping was not
  empty, a new file \<^verbatim>\<open>Dir/level.sst\<close> holding that mapping, and the level counter one
  higher, otherwise no new file and the same level; the former active mapping as the
  immutable one; an empty active mapping. The file holds the old immutable mapping and
  is named by the old level: the write comes before the move and the increment.
\<close>

theorem DB_compact_steps:
  assumes "wal_seek io = None" and "wal_truncate io = None"
    and "sst_create io = None" and "sst_write io = None"
  shows "DB_compact marshal io db files =
     (db\<lparr>WAL := (WAL db)\<lparr>Records := [], f := (f (WAL db))\<lparr>offset := 0\<rparr>\<rparr>,
         Table := (Table db)
           \<lparr>Immutable := MemTable (Table db), MemTable := fmempty,
            level := (if Immutable (Table db) = fmempty then level (Table db)
                      else level (Table db) + 1)\<rparr>\<rparr>,
      (if Immutable (Table db) = fmempty then files(path (f (WAL db)) \<mapsto> [])
       else (files(path (f (WAL db)) \<mapsto> []))
              (Table.Dir (Table db) @ ''/'' @ fmt_d (sint (level (Table db))) @ ''.sst''
                 \<mapsto> marshal (Immutable (Table db)))),
      None)"
  using assms
  by (simp add: DB_compact_def WAL_compact_def Let_def len_map_pos DB_writeSSTable_def
      Table_writeSSTable_ok)

theorem DB_compact_steps_witness:
  "wal_seek io_ok = None \<and> wal_truncate io_ok = None \<and>
   sst_create io_ok = None \<and> sst_write io_ok = None \<and>
   DB_compact ex_marshal io_ok full_db2 full_files =
     (\<lparr>WAL = \<lparr>Records = [], Dir = ''.'', f = \<lparr>path = ''./wal.txt'', offset = 0\<rparr>\<rparr>,
       Table = \<lparr>Dir = ''.'', MemTable = fmempty, Immutable = fmupd ''c'' ''d'' fmempty,
                level = 1\<rparr>\<rparr>,
      [''./wal.txt'' \<mapsto> [], ''./0.sst'' \<mapsto> ex_marshal (fmupd ''a'' ''b'' fmempty)],
      None)"
  using DB_compact_steps [of io_ok ex_marshal full_db2 full_files]
  by (simp add: io_ok_def full_db2_def full_WAL_def full_files_def fmt_d_zero)

lemma DB_compact_Records:
  "DB_compact marshal io db files = (db1, files1, err) \<Longrightarrow>
   Records (WAL db1) = [] \<and> WAL.Dir (WAL db1) = WAL.Dir (WAL db)
   \<and> path (f (WAL db1)) = path (f (WAL db))"
  by (auto simp: DB_compact_def DB_writeSSTable_def WAL_compact_def Let_def
      split: prod.splits option.splits if_splits)

lemma DB_compact_None_Table:
  "DB_compact marshal io db files = (db1, files1, None) \<Longrightarrow>
   Immutable (Table db1) = MemTable (Table db) \<and> MemTable (Table db1) = fmempty \<and>
   Table.Dir (Table db1) = Table.Dir (Table db) \<and>
   level (Table db1) =
     (if Immutable (Table db) \<noteq> fmempty then level (Table db) + 1 else level (Table db))"
  by (auto simp: DB_compact_def DB_writeSSTable_def WAL_compact_def Let_def len_map_pos
      Table_writeSSTable_def file_Write_def
      split: prod.splits option.splits if_splits)

text \<open>With an empty immutable mapping no file but the log is touched.\<close>

lemma DB_compact_first:
  assumes "Immutable (Table db) = fmempty"
  shows "\<exists>w files1.
    DB_compact marshal io db files =
      (\<lparr>WAL = w, Table = (Table db)\<lparr>Immutable := MemTable (Table db), MemTable := fmempty\<rparr>\<rparr>,
       files1, None) \<and>
    Records w = [] \<and> path (f w) = path (f (WAL db)) \<and>
    (\<forall>p. p \<noteq> path (f (WAL db)) \<longrightarrow> files1 p = files p)"
proof -
  obtain w files1 where w: "WAL_compact io (WAL db) files = (w, files1, None)"
    "Records w = []" "path (f w) = path (f (WAL db))"
    "\<forall>p. p \<noteq> path (f (WAL db)) \<longrightarrow> files1 p = files p"
    using WAL_compact_eq [of io "WAL db" files] by blast
  have "DB_compact marshal io db files =
      (\<lparr>WAL = w, Table = (Table db)\<lparr>Immutable := MemTable (Table db), MemTable := fmempty\<rparr>\<rparr>,
       files1, None)"
    using assms by (simp add: DB_compact_def w(1) Let_def fcard_fempty)
  with w show ?thesis by blast
qed

section \<open>Writes\<close>

subsection \<open>Append and sync\<close>

lemma WAL_Append_Ret:
  "\<exists>w' files'. WAL_Append io r w files = Ret (w', files', map_option snd (wal_write io))
     \<and> Records w' = Records w @ [r] \<and> WAL.Dir w' = WAL.Dir w \<and> path (f w') = path (f w)
     \<and> (\<forall>p. p \<noteq> path (f w) \<longrightarrow> files' p = files p)"
  by (simp add: WAL_Append_def WAL_flush_def WAL_last_def file_Write_def Let_def)

lemma DB_sync_last:
  "Records (WAL db) = rs @ [r] \<Longrightarrow>
   DB_sync db = Ret
     (db\<lparr>Table :=
        (if Action r = ActionPut
         then (Table db)\<lparr>MemTable := fmupd (Key r) (Val r) (MemTable (Table db))\<rparr>
         else if Action r = ActionDelete
         then (Table db)\<lparr>MemTable := fmdrop (Key r) (MemTable (Table db))\<rparr>
         else Table db)\<rparr>, None)"
  by (simp add: DB_sync_def WAL_last_def Table_Put_def Table_Delete_def)

lemma checked_no_compaction:
  "WAL_len (WAL db) \<le> LogLimit \<Longrightarrow> checked marshal io db files db files"
  by (simp add: checked_def)

lemma checked_compaction:
  "LogLimit < WAL_len (WAL db) \<Longrightarrow> DB_compact marshal io db files = (db1, files1, None) \<Longrightarrow>
   checked marshal io db files db1 files1"
  by (simp add: checked_def)

text \<open>
  Once the check has passed, \<^verbatim>\<open>append\<close> returns: the record is the last of the log,
  the returned error is the one of the write to the log file, and the table has the
  record applied exactly when that write succeeded.
\<close>

lemma DB_append_checked:
  assumes "checked marshal io db files db1 files1"
  shows "\<exists>w' files'.
    DB_append marshal io db files key val action =
      Ret (\<lparr>WAL = w',
            Table = (if wal_write io \<noteq> None then Table db1
                     else if action = ActionPut
                     then (Table db1)\<lparr>MemTable := fmupd key val (MemTable (Table db1))\<rparr>
                     else if action = ActionDelete
                     then (Table db1)\<lparr>MemTable := fmdrop key (MemTable (Table db1))\<rparr>
                     else Table db1)\<rparr>,
           files', map_option snd (wal_write io))
    \<and> Records w' = Records (WAL db1) @
          [\<lparr>Len = of_nat (length key) + of_nat (length val) + 1 + 1,
            Key = key, Val = val, Action = action\<rparr>]
    \<and> WAL.Dir w' = WAL.Dir (WAL db1) \<and> path (f w') = path (f (WAL db1))
    \<and> (\<forall>p. p \<noteq> path (f (WAL db1)) \<longrightarrow> files' p = files1 p)"
proof -
  let ?r = "\<lparr>Len = of_nat (length key) + of_nat (length val) + 1 + 1,
            Key = key, Val = val, Action = action\<rparr>"
  obtain w' files' where
    a: "WAL_Append io ?r (WAL db1) files1 = Ret (w', files', map_option snd (wal_write io))"
    and w: "Records w' = Records (WAL db1) @ [?r]" "WAL.Dir w' = WAL.Dir (WAL db1)"
      "path (f w') = path (f (WAL db1))"
      "\<forall>p. p \<noteq> path (f (WAL db1)) \<longrightarrow> files' p = files1 p"
    using WAL_Append_Ret [of io ?r "WAL db1" files1] by blast
  have pre: "(if LogLimit < WAL_len (WAL db)
            then (case DB_compact marshal io db files of
                    (db1, files1, Some e) \<Rightarrow> Fatal e
                  | (db1, files1, None) \<Rightarrow> Ret (db1, files1))
            else Ret (db, files)) = Ret (db1, files1)"
    using assms by (auto simp: checked_def)
  have s: "DB_sync (db1\<lparr>WAL := w'\<rparr>) = Ret
     (db1\<lparr>WAL := w', Table :=
        (if action = ActionPut
         then (Table db1)\<lparr>MemTable := fmupd key val (MemTable (Table db1))\<rparr>
         else if action = ActionDelete
         then (Table db1)\<lparr>MemTable := fmdrop key (MemTable (Table db1))\<rparr>
         else Table db1)\<rparr>, None)"
    using DB_sync_last [of "db1\<lparr>WAL := w'\<rparr>" "Records (WAL db1)" ?r] w(1) by simp
  have "DB_append marshal io db files key val action =
      Ret (\<lparr>WAL = w',
            Table = (if wal_write io \<noteq> None then Table db1
                     else if action = ActionPut
                     then (Table db1)\<lparr>MemTable := fmupd key val (MemTable (Table db1))\<rparr>
                     else if action = ActionDelete
                     then (Table db1)\<lparr>MemTable := fmdrop key (MemTable (Table db1))\<rparr>
                     else Table db1)\<rparr>,
           files', map_option snd (wal_write io))"
    by (simp only: DB_append_def pre outcome.case prod.case a)
      (cases "wal_write io"; simp add: s)
  with w show ?thesis by blast
qed

lemma DB_append_Fatal:
  "LogLimit < WAL_len (WAL db) \<Longrightarrow> DB_compact marshal io db files = (db1, files1, Some e) \<Longrightarrow>
   DB_append marshal io db files key val action = Fatal e"
  by (simp add: DB_append_def)

lemma checked_or_Fatal:
  "(\<exists>db1 files1. checked marshal io db files db1 files1) \<or>
   (\<exists>db1 files1 e. LogLimit < WAL_len (WAL db) \<and>
      DB_compact marshal io db files = (db1, files1, Some e))"
proof (cases "LogLimit < WAL_len (WAL db)")
  case True
  obtain db1 files1 err where "DB_compact marshal io db files = (db1, files1, err)"
    by (metis prod_cases3)
  with True show ?thesis by (cases err) (auto simp: checked_def)
next
  case False
  then show ?thesis by (simp add: checked_def)
qed

text \<open>
  On the engine, without a compaction in between, the stale value of the immutable
  mapping is read after a delete.
\<close>

lemma DB_Delete_stale_read:
  assumes "fmlookup (Immutable (Table db)) key = Some v"
    and "WAL_len (WAL db) \<le> LogLimit"
    and "DB_Delete marshal io db files key = Ret (db', files', None)"
  shows "DB_Get db' key = Inr v"
proof -
  have "checked marshal io db files db files"
    using assms(2) by (rule checked_no_compaction)
  from DB_append_checked [OF this, of key "[]" ActionDelete] assms(3)
  have "Immutable (Table db') = Immutable (Table db)"
    and "wal_write io = None \<longrightarrow> fmlookup (MemTable (Table db')) key = None"
    and "wal_write io = None"
    by (auto simp: DB_Delete_def ActionPut_def ActionDelete_def split: if_splits)
  with assms(1) show ?thesis
    by (simp add: DB_Get_def DB_search_def Table_Get_def)
qed

subsection \<open>A failed append\<close>

text \<open>
  Claim C3, amended. When the write to the log file fails, \<^verbatim>\<open>append\<close> (so \<^verbatim>\<open>Put\<close>
  and \<^verbatim>\<open>Delete\<close>) returns that error, the record is the last of the log's in-memory
  records, and the record is not applied to the table pair. If the log held at most
  \<open>LogLimit\<close> records, the table pair is unchanged. If it held more, the call compacted
  first, and the table pair is the one the compaction left: the former active mapping
  is the immutable one and the active one is empty.
\<close>

theorem append_failure_not_applied:
  assumes "wal_write io = Some (n, e)"
  shows "(WAL_len (WAL db) \<le> LogLimit \<longrightarrow>
           (\<exists>w' files'.
              DB_append marshal io db files key val action =
                Ret (\<lparr>WAL = w', Table = Table db\<rparr>, files', Some e) \<and>
              Records w' = Records (WAL db) @
                [\<lparr>Len = of_nat (length key) + of_nat (length val) + 1 + 1,
                  Key = key, Val = val, Action = action\<rparr>])) \<and>
         (LogLimit < WAL_len (WAL db) \<longrightarrow>
           (\<forall>db1 files1. DB_compact marshal io db files = (db1, files1, None) \<longrightarrow>
              (\<exists>w' files'.
                 DB_append marshal io db files key val action =
                   Ret (\<lparr>WAL = w', Table = Table db1\<rparr>, files', Some e) \<and>
                 Immutable (Table db1) = MemTable (Table db) \<and>
                 MemTable (Table db1) = fmempty \<and>
                 Records w' =
                   [\<lparr>Len = of_nat (length key) + of_nat (length val) + 1 + 1,
                     Key = key, Val = val, Action = action\<rparr>])))"
proof (intro conjI impI allI)
  assume "WAL_len (WAL db) \<le> LogLimit"
  then have "checked marshal io db files db files" by (rule checked_no_compaction)
  from DB_append_checked [OF this, of key val action] assms
  show "\<exists>w' files'.
          DB_append marshal io db files key val action =
            Ret (\<lparr>WAL = w', Table = Table db\<rparr>, files', Some e) \<and>
          Records w' = Records (WAL db) @
            [\<lparr>Len = of_nat (length key) + of_nat (length val) + 1 + 1,
              Key = key, Val = val, Action = action\<rparr>]"
    by auto
next
  fix db1 files1
  assume "LogLimit < WAL_len (WAL db)"
    and c: "DB_compact marshal io db files = (db1, files1, None)"
  then have "checked marshal io db files db1 files1" by (rule checked_compaction)
  from DB_append_checked [OF this, of key val action] assms
    DB_compact_Records [OF c] DB_compact_None_Table [OF c]
  show "\<exists>w' files'.
          DB_append marshal io db files key val action =
            Ret (\<lparr>WAL = w', Table = Table db1\<rparr>, files', Some e) \<and>
          Immutable (Table db1) = MemTable (Table db) \<and>
          MemTable (Table db1) = fmempty \<and>
          Records w' =
            [\<lparr>Len = of_nat (length key) + of_nat (length val) + 1 + 1,
              Key = key, Val = val, Action = action\<rparr>]"
    by auto
qed

theorem append_failure_not_applied_witness:
  "wal_write io_wal_fail = Some (0, IOError ''no space left on device'') \<and>
   WAL_len (WAL small_db) \<le> LogLimit \<and>
   (\<exists>w' files'.
      DB_Put ex_marshal io_wal_fail small_db small_files ''k'' ''v'' =
        Ret (\<lparr>WAL = w', Table = Table small_db\<rparr>, files',
             Some (IOError ''no space left on device'')) \<and>
      Records w' = [ex_record, \<lparr>Len = 4, Key = ''k'', Val = ''v'', Action = ActionPut\<rparr>])"
  using append_failure_not_applied [of io_wal_fail 0 "IOError ''no space left on device''"
      small_db ex_marshal small_files "''k''" "''v''" ActionPut]
  by (simp add: io_wal_fail_def io_ok_def small_db_def WAL_len_def LogLimit_def DB_Put_def)

lemma full_WAL_len: "WAL_len full_WAL = 4097"
  by (simp add: full_WAL_def WAL_len_def)

lemma DB_compact_full_db:
  assumes "wal_seek io = None" and "wal_truncate io = None"
  shows "DB_compact marshal io full_db full_files =
     (\<lparr>WAL = \<lparr>Records = [], Dir = ''.'', f = \<lparr>path = ''./wal.txt'', offset = 0\<rparr>\<rparr>,
       Table = \<lparr>Dir = ''.'', MemTable = fmempty, Immutable = fmupd ''a'' ''b'' fmempty,
                level = 0\<rparr>\<rparr>,
      [''./wal.txt'' \<mapsto> []], None)"
  using assms
  by (simp add: DB_compact_def WAL_compact_def Let_def fcard_fempty full_db_def
      full_WAL_def full_files_def)

text \<open>
  The claim as stated fails on a log of 4097 records: the failed \<^verbatim>\<open>Put\<close> returns the
  error, and both mappings have changed, because the call compacted first.
\<close>

theorem append_failure_after_compaction:
  "DB_Put ex_marshal io_wal_fail full_db full_files ''k'' ''v'' =
     Ret (\<lparr>WAL = \<lparr>Records = [\<lparr>Len = 4, Key = ''k'', Val = ''v'', Action = ActionPut\<rparr>],
                  Dir = ''.'', f = \<lparr>path = ''./wal.txt'', offset = 0\<rparr>\<rparr>,
           Table = \<lparr>Dir = ''.'', MemTable = fmempty,
                    Immutable = fmupd ''a'' ''b'' fmempty, level = 0\<rparr>\<rparr>,
          [''./wal.txt'' \<mapsto> []],
          Some (IOError ''no space left on device'')) \<and>
   MemTable (Table full_db) \<noteq> fmempty \<and>
   Immutable (Table full_db) \<noteq> fmupd ''a'' ''b'' fmempty"
proof -
  have c: "DB_compact ex_marshal io_wal_fail full_db full_files =
     (\<lparr>WAL = \<lparr>Records = [], Dir = ''.'', f = \<lparr>path = ''./wal.txt'', offset = 0\<rparr>\<rparr>,
       Table = \<lparr>Dir = ''.'', MemTable = fmempty, Immutable = fmupd ''a'' ''b'' fmempty,
                level = 0\<rparr>\<rparr>,
      [''./wal.txt'' \<mapsto> []], None)"
    by (rule DB_compact_full_db) (simp_all add: io_wal_fail_def io_ok_def)
  have l: "LogLimit < WAL_len (WAL full_db)"
    by (simp add: full_db_def full_WAL_len LogLimit_def)
  have w: "wal_write io_wal_fail = Some (0, IOError ''no space left on device'')"
    by (simp add: io_wal_fail_def io_ok_def)
  have "DB_Put ex_marshal io_wal_fail full_db full_files ''k'' ''v'' =
     Ret (\<lparr>WAL = \<lparr>Records = [\<lparr>Len = 4, Key = ''k'', Val = ''v'', Action = ActionPut\<rparr>],
                  Dir = ''.'', f = \<lparr>path = ''./wal.txt'', offset = 0\<rparr>\<rparr>,
           Table = \<lparr>Dir = ''.'', MemTable = fmempty,
                    Immutable = fmupd ''a'' ''b'' fmempty, level = 0\<rparr>\<rparr>,
          [''./wal.txt'' \<mapsto> []],
          Some (IOError ''no space left on device''))"
    using l w
    by (simp add: DB_Put_def DB_append_def c WAL_Append_def WAL_flush_def WAL_last_def
        file_Write_def write_at_def)
  then show ?thesis
    using fmupd_not_empty [of "''a''" "''b''" fmempty]
      fmupd_not_empty [of "''a''" "''b''" fmempty, symmetric]
    by (simp add: full_db_def)
qed

subsection \<open>Deleting an absent key\<close>

text \<open>
  Claim C10, amended. For a key absent from both mappings, a \<^verbatim>\<open>Delete\<close> whose write
  to the log file succeeds returns no error. If the log held at most \<open>LogLimit\<close> records,
  the table pair is unchanged. If it held more, the call compacted first, and the table
  pair is the one the compaction left: the former active mapping is the immutable one
  and the active one is empty.
\<close>

theorem Delete_absent_key:
  assumes "fmlookup (MemTable (Table db)) key = None"
    and "fmlookup (Immutable (Table db)) key = None"
    and "wal_write io = None"
  shows "(WAL_len (WAL db) \<le> LogLimit \<longrightarrow>
           (\<exists>w' files'. DB_Delete marshal io db files key =
                           Ret (\<lparr>WAL = w', Table = Table db\<rparr>, files', None))) \<and>
         (LogLimit < WAL_len (WAL db) \<longrightarrow>
           (\<forall>db1 files1. DB_compact marshal io db files = (db1, files1, None) \<longrightarrow>
              (\<exists>w' files'. DB_Delete marshal io db files key =
                              Ret (\<lparr>WAL = w', Table = Table db1\<rparr>, files', None)) \<and>
              Immutable (Table db1) = MemTable (Table db) \<and>
              MemTable (Table db1) = fmempty))"
proof (intro conjI impI allI)
  assume "WAL_len (WAL db) \<le> LogLimit"
  then have "checked marshal io db files db files" by (rule checked_no_compaction)
  moreover have "fmdrop key (MemTable (Table db)) = MemTable (Table db)"
    using assms(1) by (simp add: fmdrop_idle fmdom_notI)
  ultimately show "\<exists>w' files'. DB_Delete marshal io db files key =
      Ret (\<lparr>WAL = w', Table = Table db\<rparr>, files', None)"
    using DB_append_checked [of marshal io db files db files key "[]" ActionDelete] assms(3)
    by (auto simp: DB_Delete_def ActionPut_def ActionDelete_def)
next
  fix db1 files1
  assume "LogLimit < WAL_len (WAL db)"
    and c: "DB_compact marshal io db files = (db1, files1, None)"
  then have "checked marshal io db files db1 files1" by (rule checked_compaction)
  moreover have "fmdrop key (MemTable (Table db1)) = MemTable (Table db1)"
    using DB_compact_None_Table [OF c] by simp
  ultimately show "\<exists>w' files'. DB_Delete marshal io db files key =
      Ret (\<lparr>WAL = w', Table = Table db1\<rparr>, files', None)"
    using DB_append_checked [of marshal io db files db1 files1 key "[]" ActionDelete] assms(3)
    by (auto simp: DB_Delete_def ActionPut_def ActionDelete_def)
  show "Immutable (Table db1) = MemTable (Table db)" "MemTable (Table db1) = fmempty"
    using DB_compact_None_Table [OF c] by simp_all
qed

theorem Delete_absent_key_witness:
  "fmlookup (MemTable (Table small_db)) ''k'' = None \<and>
   fmlookup (Immutable (Table small_db)) ''k'' = None \<and>
   wal_write io_ok = None \<and> WAL_len (WAL small_db) \<le> LogLimit \<and>
   (\<exists>w' files'. DB_Delete ex_marshal io_ok small_db small_files ''k'' =
                   Ret (\<lparr>WAL = w', Table = Table small_db\<rparr>, files', None))"
  using Delete_absent_key [of small_db "''k''" io_ok ex_marshal small_files]
  by (simp add: io_ok_def small_db_def WAL_len_def LogLimit_def)

lemma Record_Bytes_delete_k:
  "Record_Bytes \<lparr>Len = 3, Key = ''k'', Val = [], Action = ActionDelete\<rparr> = ''3dk|''"
  by code_simp

text \<open>
  The claim as stated fails on a log of 4097 records: the key is in neither mapping,
  the \<^verbatim>\<open>Delete\<close> returns no error, and both mappings have changed.
\<close>

theorem Delete_absent_key_after_compaction:
  "fmlookup (MemTable (Table full_db)) ''k'' = None \<and>
   fmlookup (Immutable (Table full_db)) ''k'' = None \<and>
   DB_Delete ex_marshal io_ok full_db full_files ''k'' =
     Ret (\<lparr>WAL = \<lparr>Records = [\<lparr>Len = 3, Key = ''k'', Val = [], Action = ActionDelete\<rparr>],
                  Dir = ''.'', f = \<lparr>path = ''./wal.txt'', offset = 4\<rparr>\<rparr>,
           Table = \<lparr>Dir = ''.'', MemTable = fmempty,
                    Immutable = fmupd ''a'' ''b'' fmempty, level = 0\<rparr>\<rparr>,
          [''./wal.txt'' \<mapsto> ''3dk|''],
          None) \<and>
   MemTable (Table full_db) \<noteq> fmempty \<and>
   Immutable (Table full_db) \<noteq> fmupd ''a'' ''b'' fmempty"
proof -
  have c: "DB_compact ex_marshal io_ok full_db full_files =
     (\<lparr>WAL = \<lparr>Records = [], Dir = ''.'', f = \<lparr>path = ''./wal.txt'', offset = 0\<rparr>\<rparr>,
       Table = \<lparr>Dir = ''.'', MemTable = fmempty, Immutable = fmupd ''a'' ''b'' fmempty,
                level = 0\<rparr>\<rparr>,
      [''./wal.txt'' \<mapsto> []], None)"
    by (rule DB_compact_full_db) (simp_all add: io_ok_def)
  have l: "LogLimit < WAL_len (WAL full_db)"
    by (simp add: full_db_def full_WAL_len LogLimit_def)
  have w: "wal_write io_ok = None"
    by (simp add: io_ok_def)
  have "DB_Delete ex_marshal io_ok full_db full_files ''k'' =
     Ret (\<lparr>WAL = \<lparr>Records = [\<lparr>Len = 3, Key = ''k'', Val = [], Action = ActionDelete\<rparr>],
                  Dir = ''.'', f = \<lparr>path = ''./wal.txt'', offset = 4\<rparr>\<rparr>,
           Table = \<lparr>Dir = ''.'', MemTable = fmempty,
                    Immutable = fmupd ''a'' ''b'' fmempty, level = 0\<rparr>\<rparr>,
          [''./wal.txt'' \<mapsto> ''3dk|''],
          None)"
    using l w
    by (simp add: DB_Delete_def DB_append_def c WAL_Append_def WAL_flush_def WAL_last_def
        file_Write_def write_at_def Record_Bytes_delete_k [unfolded ActionDelete_def]
        DB_sync_def Table_Delete_def ActionPut_def ActionDelete_def)
  then show ?thesis
    using fmupd_not_empty [of "''a''" "''b''" fmempty]
      fmupd_not_empty [of "''a''" "''b''" fmempty, symmetric]
    by (simp add: full_db_def)
qed

subsection \<open>A failed compaction\<close>

text \<open>
  Claim C8, amended. When the compaction check runs on a non-empty immutable mapping
  and creating or writing the sorted-table file fails, \<^verbatim>\<open>compact\<close> returns that error
  with the table pair (both mappings and the level) unchanged and the log's in-memory
  records already cleared, and \<^verbatim>\<open>append\<close> ends the process through \<^verbatim>\<open>log.Fatal\<close>
  with that error: nothing is returned to the caller.
\<close>

theorem compaction_failure_is_fatal:
  assumes "LogLimit < WAL_len (WAL db)"
    and "Immutable (Table db) \<noteq> fmempty"
    and "sst_create io = Some e \<or> sst_create io = None \<and> sst_write io = Some (n, e)"
  shows "\<exists>db1 files1.
           DB_compact marshal io db files = (db1, files1, Some e) \<and>
           Table db1 = Table db \<and> Records (WAL db1) = [] \<and>
           DB_append marshal io db files key val action = Fatal e"
proof -
  obtain w files0 where w: "WAL_compact io (WAL db) files = (w, files0, None)"
    using WAL_compact_eq [of io "WAL db" files] by blast
  obtain files1 where
    t: "Table_writeSSTable marshal io (Table db) files0 = (Table db, files1, Some e)"
    using Table_writeSSTable_fail [OF assms(3), of marshal "Table db" files0] by blast
  have c: "DB_compact marshal io db files = (db\<lparr>WAL := w\<rparr>, files1, Some e)"
    using assms(2) by (simp add: DB_compact_def w Let_def len_map_pos DB_writeSSTable_def t)
  from DB_compact_Records [OF c] DB_append_Fatal [OF assms(1) c] c
  show ?thesis by simp
qed

theorem compaction_failure_is_fatal_witness:
  "LogLimit < WAL_len (WAL full_db2) \<and> Immutable (Table full_db2) \<noteq> fmempty \<and>
   sst_create io_sst_fail = Some (IOError ''permission denied'') \<and>
   (\<exists>db1 files1.
      DB_compact ex_marshal io_sst_fail full_db2 full_files
        = (db1, files1, Some (IOError ''permission denied'')) \<and>
      Table db1 = Table full_db2 \<and> Records (WAL db1) = [] \<and>
      DB_append ex_marshal io_sst_fail full_db2 full_files ''k'' ''v'' ActionPut
        = Fatal (IOError ''permission denied''))"
  using compaction_failure_is_fatal [of full_db2 io_sst_fail "IOError ''permission denied''" 0
      ex_marshal full_files "''k''" "''v''" ActionPut]
    fmupd_not_empty [of "''a''" "''b''" fmempty]
  by (simp add: full_db2_def full_WAL_len LogLimit_def io_sst_fail_def io_ok_def)

text \<open>
  The claim as stated fails: with the file creation refused, the \<^verbatim>\<open>Put\<close> that triggers
  the compaction does not return an error, it ends the process.
\<close>

theorem Put_exits_on_compaction_failure:
  "DB_Put ex_marshal io_sst_fail full_db2 full_files ''k'' ''v''
     = Fatal (IOError ''permission denied'')"
proof -
  have l: "LogLimit < WAL_len (WAL full_db2)"
    by (simp add: full_db2_def full_WAL_len LogLimit_def)
  have ne: "0 < fcard (fmdom (Immutable (Table full_db2)))"
    unfolding len_map_pos full_db2_def by (simp add: fmupd_not_empty)
  have "\<exists>db1 files1. DB_compact ex_marshal io_sst_fail full_db2 full_files
      = (db1, files1, Some (IOError ''permission denied''))"
    using ne
    by (simp add: DB_compact_def WAL_compact_def Let_def DB_writeSSTable_def
        Table_writeSSTable_def io_sst_fail_def io_ok_def)
  then show ?thesis
    using l by (auto simp: DB_Put_def DB_append_def)
qed

section \<open>Sequences of writes\<close>

subsection \<open>The record count\<close>

lemma DB_append_len:
  assumes "DB_append marshal io db files key val action = Ret (db', files', err)"
  shows "1 \<le> WAL_len (WAL db') \<and> WAL_len (WAL db') \<le> LogLimit + 1"
proof -
  from checked_or_Fatal [of marshal io db files]
  obtain db1 files1 where c: "checked marshal io db files db1 files1"
    using assms DB_append_Fatal [of db marshal io files _ _ _ key val action] by fastforce
  from DB_append_checked [OF c, of key val action] assms
  have len: "length (Records (WAL db')) = Suc (length (Records (WAL db1)))"
    by auto
  have "int (length (Records (WAL db1))) \<le> LogLimit"
  proof (cases "LogLimit < WAL_len (WAL db)")
    case True
    with c have "DB_compact marshal io db files = (db1, files1, None)"
      by (simp add: checked_def)
    from DB_compact_Records [OF this] show ?thesis by (simp add: LogLimit_def)
  next
    case False
    with c show ?thesis by (simp add: checked_def WAL_len_def)
  qed
  with len show ?thesis by (simp add: WAL_len_def)
qed

lemma DB_call_len:
  "DB_call marshal io db files c = Ret (db', files', err) \<Longrightarrow>
   1 \<le> WAL_len (WAL db') \<and> WAL_len (WAL db') \<le> LogLimit + 1"
  by (cases c) (auto simp: DB_Put_def DB_Delete_def dest: DB_append_len)

lemma run_snoc:
  "run marshal (cs @ [(c, io)]) db files =
     (case run marshal cs db files of
        Panic p \<Rightarrow> Panic p
      | Fatal e \<Rightarrow> Fatal e
      | Ret (db1, files1) \<Rightarrow>
          (case DB_call marshal io db1 files1 c of
             Panic p \<Rightarrow> Panic p
           | Fatal e \<Rightarrow> Fatal e
           | Ret (db2, files2, err) \<Rightarrow> Ret (db2, files2)))"
  by (induction cs arbitrary: db files) (auto split: outcome.splits)

subsection \<open>Opening on an empty log\<close>

lemma parseRecord_empty: "parseRecord [] = Ret ([], None)"
  by (simp add: parseRecord_def parseLoop.simps)

lemma fold_apply_Option:
  "MemTable (fold apply_Option options t) = MemTable t \<and>
   Immutable (fold apply_Option options t) = Immutable t \<and>
   level (fold apply_Option options t) = level t"
proof (induction options arbitrary: t)
  case Nil
  show ?case by simp
next
  case (Cons a options)
  then show ?case by (cases a) simp
qed

lemma Open_empty_log:
  assumes "Open oio options files0 = Ret (db0, files1)"
    and "files0 (Table.Dir (fold apply_Option options newDefaultDB) @ ''/wal.txt'')
           \<in> {None, Some []}"
  shows "Records (WAL db0) = []"
    and "Table db0 = fold apply_Option options newDefaultDB"
    and "path (f (WAL db0)) = Table.Dir (Table db0) @ ''/wal.txt''"
    and "files1 = files0(Table.Dir (Table db0) @ ''/wal.txt'' \<mapsto> [])"
  using assms
  by (auto simp: Open_def newWAL_def Let_def parseRecord_empty
      split: option.splits outcome.splits prod.splits)

lemma Open_fresh: "Open oio_ok [] Map.empty = Ret (filled_db 0, filled_files 0)"
  by (simp add: Open_def oio_ok_def newWAL_def Let_def parseRecord_empty newDefaultDB_def
      filled_db_def filled_files_def)

subsection \<open>4097 writes and one more\<close>

lemma full_db_filled: "filled_db 4097 = full_db" "filled_files 4097 = full_files"
  by (simp_all add: full_db_def filled_db_def full_WAL_def full_files_def filled_files_def)

lemma Record_Bytes_ex:
  "Record_Bytes \<lparr>Len = 4, Key = ''a'', Val = ''b'', Action = 0\<rparr> = ''4pa|b''"
  "Record_Bytes \<lparr>Len = 4, Key = ''k'', Val = ''v'', Action = 0\<rparr> = ''4pk|v''"
  by code_simp+

lemma length_concat_replicate: "length (concat (replicate k xs)) = k * length xs"
  by (induction k) simp_all

lemma concat_replicate_snoc: "concat (replicate k xs) @ xs = concat (replicate (Suc k) xs)"
  by (induction k) simp_all

lemma Put_filled:
  assumes k: "k < 4097"
  shows "DB_Put marshal io_ok (filled_db k) (filled_files k) ''a'' ''b''
     = Ret (filled_db (Suc k), filled_files (Suc k), None)"
proof -
  have len: "length (concat (replicate k ''4pa|b'')) = 5 * k"
    by (simp add: length_concat_replicate)
  have w: "write_at (5 * k) ''4pa|b'' (concat (replicate k ''4pa|b''))
      = concat (replicate (Suc k) ''4pa|b'')"
    unfolding len [symmetric] write_at_end concat_replicate_snoc by (rule refl)
  have r: "replicate k ex_record @ [ex_record] = replicate (Suc k) ex_record"
    by (simp add: replicate_append_same)
  have rb: "Record_Bytes ex_record = ''4pa|b''"
    unfolding ex_record_def ActionPut_def by (rule Record_Bytes_ex(1))
  have l: "\<not> LogLimit < WAL_len (WAL (filled_db k))"
    using k by (simp add: filled_db_def WAL_len_def LogLimit_def)
  let ?w = "\<lparr>Records = replicate (Suc k) ex_record, Dir = ''.'',
             f = \<lparr>path = ''./wal.txt'', offset = 5 * Suc k\<rparr>\<rparr>"
  have a: "WAL_Append io_ok ex_record (WAL (filled_db k)) (filled_files k)
      = Ret (?w, filled_files (Suc k), None)"
    unfolding WAL_Append_def WAL_flush_def WAL_last_def file_Write_def filled_db_def
      filled_files_def
    by (simp add: r w io_ok_def rb del: replicate_Suc replicate.simps)
  have rec: "\<lparr>Len = of_nat (length ''a'') + of_nat (length ''b'') + 1 + 1,
              Key = ''a'', Val = ''b'', Action = ActionPut\<rparr> = ex_record"
    by (simp add: ex_record_def)
  have s: "DB_sync ((filled_db k)\<lparr>WAL := ?w\<rparr>) = Ret (filled_db (Suc k), None)"
    by (simp add: DB_sync_def WAL_last_def filled_db_def ex_record_def Table_Put_def
        last_replicate)
  show ?thesis
    by (simp only: DB_Put_def DB_append_def l if_False outcome.case prod.case rec a
        option.case s)
qed

lemma run_filled:
  "k + n \<le> 4097 \<Longrightarrow>
   run marshal (replicate n (CallPut ''a'' ''b'', io_ok)) (filled_db k) (filled_files k)
     = Ret (filled_db (k + n), filled_files (k + n))"
proof (induction n arbitrary: k)
  case 0
  show ?case by simp
next
  case (Suc n)
  then have "k < 4097" "Suc k + n \<le> 4097" by simp_all
  from Put_filled [OF this(1), of marshal] Suc.IH [OF this(2)]
  show ?case by simp
qed

lemma Put_full:
  "DB_Put marshal io_ok (filled_db 4097) (filled_files 4097) ''k'' ''v''
     = Ret (after_db, [''./wal.txt'' \<mapsto> ''4pk|v''], None)"
proof -
  have c: "DB_compact marshal io_ok full_db full_files =
     (\<lparr>WAL = \<lparr>Records = [], Dir = ''.'', f = \<lparr>path = ''./wal.txt'', offset = 0\<rparr>\<rparr>,
       Table = \<lparr>Dir = ''.'', MemTable = fmempty, Immutable = fmupd ''a'' ''b'' fmempty,
                level = 0\<rparr>\<rparr>,
      [''./wal.txt'' \<mapsto> []], None)"
    by (rule DB_compact_full_db) (simp_all add: io_ok_def)
  have l: "LogLimit < WAL_len (WAL full_db)"
    by (simp add: full_db_def full_WAL_len LogLimit_def)
  have w: "wal_write io_ok = None"
    by (simp add: io_ok_def)
  show ?thesis
    unfolding full_db_filled
    using l w
    by (simp add: DB_Put_def DB_append_def c WAL_Append_def WAL_flush_def WAL_last_def
        file_Write_def write_at_def Record_Bytes_ex DB_sync_def Table_Put_def
        ActionPut_def after_db_def)
qed

lemma run_until_compaction:
  "run marshal (replicate 4097 (CallPut ''a'' ''b'', io_ok) @ [(CallPut ''k'' ''v'', io_ok)])
     (filled_db 0) (filled_files 0)
   = Ret (after_db, [''./wal.txt'' \<mapsto> ''4pk|v''])"
  using run_filled [of 0 4097 marshal]
  by (simp add: run_snoc Put_full)

text \<open>
  Claim C9. On an engine opened on an empty or absent log file the log holds no record,
  and after every \<^verbatim>\<open>Put\<close> or \<^verbatim>\<open>Delete\<close> that returns, whatever calls came before
  it and whether it returned an error or not, the log holds at least 1 and at most
  \<open>LogLimit + 1\<close> records.
\<close>

theorem WAL_count_bounds:
  assumes "Open oio options files0 = Ret (db0, files1)"
    and "files0 (Table.Dir (fold apply_Option options newDefaultDB) @ ''/wal.txt'')
           \<in> {None, Some []}"
    and "run marshal (cs @ [(c, io)]) db0 files1 = Ret (db, files2)"
  shows "WAL_len (WAL db0) = 0 \<and> 1 \<le> WAL_len (WAL db) \<and> WAL_len (WAL db) \<le> LogLimit + 1"
proof -
  have "WAL_len (WAL db0) = 0"
    using Open_empty_log(1) [OF assms(1,2)] by (simp add: WAL_len_def)
  moreover
  from assms(3) obtain db1 files' err where
    "DB_call marshal io db1 files' c = Ret (db, files2, err)"
    by (auto simp: run_snoc split: outcome.splits)
  from DB_call_len [OF this]
  have "1 \<le> WAL_len (WAL db) \<and> WAL_len (WAL db) \<le> LogLimit + 1" .
  ultimately show ?thesis by simp
qed

theorem WAL_count_bounds_witness:
  "Open oio_ok [] Map.empty = Ret (filled_db 0, filled_files 0) \<and>
   Map.empty (Table.Dir (fold apply_Option [] newDefaultDB) @ ''/wal.txt'')
     \<in> {None, Some ([] :: string)} \<and>
   run ex_marshal
     (replicate 4097 (CallPut ''a'' ''b'', io_ok) @ [(CallPut ''k'' ''v'', io_ok)])
     (filled_db 0) (filled_files 0)
     = Ret (after_db, [''./wal.txt'' \<mapsto> ''4pk|v'']) \<and>
   WAL_len (WAL (filled_db 0)) = 0 \<and>
   1 \<le> WAL_len (WAL after_db) \<and> WAL_len (WAL after_db) \<le> LogLimit + 1"
  using WAL_count_bounds [of oio_ok "[]" Map.empty "filled_db 0" "filled_files 0" ex_marshal
      "replicate 4097 (CallPut ''a'' ''b'', io_ok)" "CallPut ''k'' ''v''" io_ok
      after_db "[''./wal.txt'' \<mapsto> ''4pk|v'']"]
    Open_fresh run_until_compaction [of ex_marshal]
  by simp

subsection \<open>The first compaction\<close>

lemma DB_call_below_limit:
  assumes "WAL_len (WAL db) \<le> LogLimit"
  shows "\<exists>db' files' err.
    DB_call marshal io db files c = Ret (db', files', err) \<and>
    length (Records (WAL db')) = Suc (length (Records (WAL db))) \<and>
    Immutable (Table db') = Immutable (Table db) \<and>
    level (Table db') = level (Table db) \<and>
    Table.Dir (Table db') = Table.Dir (Table db) \<and>
    path (f (WAL db')) = path (f (WAL db)) \<and>
    (\<forall>p. p \<noteq> path (f (WAL db)) \<longrightarrow> files' p = files p)"
proof -
  have c: "checked marshal io db files db files"
    using assms by (rule checked_no_compaction)
  show ?thesis
  proof (cases c)
    case (CallPut key val)
    from DB_append_checked [OF c, of key val ActionPut]
    show ?thesis unfolding CallPut DB_call.simps DB_Put_def by auto
  next
    case (CallDelete key)
    from DB_append_checked [OF c, of key "[]" ActionDelete]
    show ?thesis unfolding CallDelete DB_call.simps DB_Delete_def by auto
  qed
qed

lemma run_below_limit:
  "int (length (Records (WAL db))) + int (length cs) \<le> LogLimit + 1 \<Longrightarrow>
   \<exists>db' files'.
     run marshal cs db files = Ret (db', files') \<and>
     length (Records (WAL db')) = length (Records (WAL db)) + length cs \<and>
     Immutable (Table db') = Immutable (Table db) \<and>
     level (Table db') = level (Table db) \<and>
     Table.Dir (Table db') = Table.Dir (Table db) \<and>
     path (f (WAL db')) = path (f (WAL db)) \<and>
     (\<forall>p. p \<noteq> path (f (WAL db)) \<longrightarrow> files' p = files p)"
proof (induction cs arbitrary: db files)
  case Nil
  show ?case by simp
next
  case (Cons a cs)
  obtain c io where a: "a = (c, io)" by (cases a)
  from Cons.prems have "WAL_len (WAL db) \<le> LogLimit"
    by (simp add: WAL_len_def)
  from DB_call_below_limit [OF this, of marshal io files c]
  obtain db1 files1 err where s:
    "DB_call marshal io db files c = Ret (db1, files1, err)"
    "length (Records (WAL db1)) = Suc (length (Records (WAL db)))"
    "Immutable (Table db1) = Immutable (Table db)"
    "level (Table db1) = level (Table db)"
    "Table.Dir (Table db1) = Table.Dir (Table db)"
    "path (f (WAL db1)) = path (f (WAL db))"
    "\<forall>p. p \<noteq> path (f (WAL db)) \<longrightarrow> files1 p = files p"
    by blast
  from Cons.prems s(2)
  have "int (length (Records (WAL db1))) + int (length cs) \<le> LogLimit + 1"
    by simp
  from Cons.IH [OF this, of files1] s
  show ?case unfolding a by auto
qed

text \<open>
  Claim C5, amended. On an engine opened on an empty or absent log file, any
  \<open>LogLimit + 1\<close> calls to \<^verbatim>\<open>Put\<close> and \<^verbatim>\<open>Delete\<close> all return and leave more than
  \<open>LogLimit\<close> records in the log; one more \<^verbatim>\<open>Put\<close> then returns and leaves exactly
  its own record in the log. The compaction it runs finds the immutable mapping empty,
  so it writes no sorted-table file: the level counter stays 0 and every file other
  than the log file is as it was before the engine was opened.
\<close>

theorem first_compaction_no_SSTable:
  assumes "Open oio options files0 = Ret (db0, files1)"
    and "files0 (Table.Dir (fold apply_Option options newDefaultDB) @ ''/wal.txt'')
           \<in> {None, Some []}"
    and "int (length cs) = LogLimit + 1"
  shows "\<exists>db files2 w' t' files3.
    run marshal cs db0 files1 = Ret (db, files2) \<and>
    LogLimit < WAL_len (WAL db) \<and>
    DB_Put marshal io db files2 key val
      = Ret (\<lparr>WAL = w', Table = t'\<rparr>, files3, map_option snd (wal_write io)) \<and>
    Records w' = [\<lparr>Len = of_nat (length key) + of_nat (length val) + 1 + 1,
                   Key = key, Val = val, Action = ActionPut\<rparr>] \<and>
    level t' = 0 \<and>
    (\<forall>p. p \<noteq> Table.Dir (Table db0) @ ''/wal.txt'' \<longrightarrow> files3 p = files0 p)"
proof -
  note o = Open_empty_log [OF assms(1,2)]
  have t0: "Immutable (Table db0) = fmempty" "level (Table db0) = 0"
    using o(2) fold_apply_Option [of options newDefaultDB] by (simp_all add: newDefaultDB_def)
  have "int (length (Records (WAL db0))) + int (length cs) \<le> LogLimit + 1"
    using o(1) assms(3) by simp
  from run_below_limit [OF this, of marshal files1]
  obtain db files2 where r:
    "run marshal cs db0 files1 = Ret (db, files2)"
    "length (Records (WAL db)) = length (Records (WAL db0)) + length cs"
    "Immutable (Table db) = Immutable (Table db0)"
    "level (Table db) = level (Table db0)"
    "path (f (WAL db)) = path (f (WAL db0))"
    "\<forall>p. p \<noteq> path (f (WAL db0)) \<longrightarrow> files2 p = files1 p"
    by blast
  have l: "LogLimit < WAL_len (WAL db)"
    using r(2) o(1) assms(3) by (simp add: WAL_len_def)
  from DB_compact_first [of db marshal io files2] r(3) t0(1)
  obtain w fs1 where c:
    "DB_compact marshal io db files2 =
      (\<lparr>WAL = w, Table = (Table db)\<lparr>Immutable := MemTable (Table db), MemTable := fmempty\<rparr>\<rparr>,
       fs1, None)"
    "Records w = []" "path (f w) = path (f (WAL db))"
    "\<forall>p. p \<noteq> path (f (WAL db)) \<longrightarrow> fs1 p = files2 p"
    by auto
  let ?db1 = "\<lparr>WAL = w,
              Table = (Table db)\<lparr>Immutable := MemTable (Table db), MemTable := fmempty\<rparr>\<rparr>"
  have "checked marshal io db files2 ?db1 fs1"
    using l c(1) by (rule checked_compaction)
  from DB_append_checked [OF this, of key val ActionPut]
  obtain w' files3 t' where a:
    "DB_Put marshal io db files2 key val
      = Ret (\<lparr>WAL = w', Table = t'\<rparr>, files3, map_option snd (wal_write io))"
    "t' = (if wal_write io \<noteq> None then Table ?db1
           else (Table ?db1)\<lparr>MemTable := fmupd key val (MemTable (Table ?db1))\<rparr>)"
    "Records w' = Records (WAL ?db1) @
       [\<lparr>Len = of_nat (length key) + of_nat (length val) + 1 + 1,
         Key = key, Val = val, Action = ActionPut\<rparr>]"
    "\<forall>p. p \<noteq> path (f (WAL ?db1)) \<longrightarrow> files3 p = fs1 p"
    unfolding DB_Put_def by auto
  have lev: "level t' = 0"
    using a(2) r(4) t0(2) by simp
  have recs: "Records w' = [\<lparr>Len = of_nat (length key) + of_nat (length val) + 1 + 1,
                   Key = key, Val = val, Action = ActionPut\<rparr>]"
    using a(3) c(2) by simp
  have files: "\<forall>p. p \<noteq> Table.Dir (Table db0) @ ''/wal.txt'' \<longrightarrow> files3 p = files0 p"
    using a(4) c(3,4) r(5,6) o(3,4) by simp
  from r(1) l a(1) recs lev files show ?thesis by blast
qed

theorem first_compaction_no_SSTable_witness:
  "Open oio_ok [] Map.empty = Ret (filled_db 0, filled_files 0) \<and>
   Map.empty (Table.Dir (fold apply_Option [] newDefaultDB) @ ''/wal.txt'')
     \<in> {None, Some ([] :: string)} \<and>
   int (length (replicate 4097 (CallPut ''a'' ''b'', io_ok))) = LogLimit + 1 \<and>
   (\<exists>db files2 w' t' files3.
      run ex_marshal (replicate 4097 (CallPut ''a'' ''b'', io_ok)) (filled_db 0) (filled_files 0)
        = Ret (db, files2) \<and>
      LogLimit < WAL_len (WAL db) \<and>
      DB_Put ex_marshal io_ok db files2 ''k'' ''v''
        = Ret (\<lparr>WAL = w', Table = t'\<rparr>, files3, None) \<and>
      Records w' = [\<lparr>Len = 4, Key = ''k'', Val = ''v'', Action = ActionPut\<rparr>] \<and>
      level t' = 0 \<and>
      (\<forall>p. p \<noteq> ''./wal.txt'' \<longrightarrow> files3 p = None))"
  using first_compaction_no_SSTable [of oio_ok "[]" Map.empty "filled_db 0" "filled_files 0"
      "replicate 4097 (CallPut ''a'' ''b'', io_ok)" ex_marshal io_ok "''k''" "''v''"]
    Open_fresh
  by (simp add: LogLimit_def newDefaultDB_def io_ok_def filled_db_def)

text \<open>
  The claim as stated fails: opened on no files at all, after 4097 calls
  \<^verbatim>\<open>Put("a", "b")\<close> and one \<^verbatim>\<open>Put("k", "v")\<close> the log holds that one record, and the
  log file is the only file; there is no \<^verbatim>\<open>./0.sst\<close>.
\<close>

theorem first_compaction_scenario:
  "Open oio_ok [] Map.empty = Ret (filled_db 0, filled_files 0) \<and>
   run ex_marshal
     (replicate 4097 (CallPut ''a'' ''b'', io_ok) @ [(CallPut ''k'' ''v'', io_ok)])
     (filled_db 0) (filled_files 0)
     = Ret (after_db, [''./wal.txt'' \<mapsto> ''4pk|v'']) \<and>
   Records (WAL after_db) = [\<lparr>Len = 4, Key = ''k'', Val = ''v'', Action = ActionPut\<rparr>] \<and>
   level (Table after_db) = 0 \<and>
   (Map.empty(''./wal.txt'' \<mapsto> ''4pk|v'')) ''./0.sst'' = None"
  using Open_fresh run_until_compaction [of ex_marshal]
  by (simp add: after_db_def)

end
